theory Spec2Isabelle
  imports Main "HOL-Library.Sublist" "HOL-Library.Multiset" "HOL-Library.Char_ord"
    "HOL-Library.List_Lexorder"
begin

section \<open>Text primitives of the scripts\<close>

text \<open>
  Python strings are modelled as \<^typ>\<open>string\<close>. The character classes of the regular
  expressions and of \<open>str.strip\<close>, \<open>str.lower\<close> and \<open>str.upper\<close> are taken on ASCII
  text, where Python's Unicode classes and the classes below agree; the symbols of the
  report template that lie outside ASCII are written as their UTF-8 bytes.
\<close>

definition nl :: char where
  "nl = CHR 0x0A"

text \<open>\<open>\s\<close> and the default \<open>str.strip\<close> set: the ASCII characters Python counts as
  white space (tab, line feed, vertical tab, form feed, carriage return, the four
  separators 0x1C-0x1F and the space).\<close>

definition is_space :: "char \<Rightarrow> bool" where
  "is_space c \<longleftrightarrow> c \<in> set [CHR 0x09, CHR 0x0A, CHR 0x0B, CHR 0x0C, CHR 0x0D,
                             CHR 0x1C, CHR 0x1D, CHR 0x1E, CHR 0x1F, CHR 0x20]"

definition is_digit :: "char \<Rightarrow> bool" where
  "is_digit c \<longleftrightarrow> (let n = (of_char c :: nat) in 48 \<le> n \<and> n \<le> 57)"

definition is_upper :: "char \<Rightarrow> bool" where
  "is_upper c \<longleftrightarrow> (let n = (of_char c :: nat) in 65 \<le> n \<and> n \<le> 90)"

definition is_lower :: "char \<Rightarrow> bool" where
  "is_lower c \<longleftrightarrow> (let n = (of_char c :: nat) in 97 \<le> n \<and> n \<le> 122)"

text \<open>\<open>\w\<close>: letters, digits and the underscore.\<close>

definition is_word :: "char \<Rightarrow> bool" where
  "is_word c \<longleftrightarrow> is_upper c \<or> is_lower c \<or> is_digit c \<or> c = CHR ''_''"

definition lower_char :: "char \<Rightarrow> char" where
  "lower_char c = (if is_upper c then char_of ((of_char c :: nat) + 32) else c)"

definition upper_char :: "char \<Rightarrow> char" where
  "upper_char c = (if is_lower c then char_of ((of_char c :: nat) - 32) else c)"

text \<open>\<open>s.lower()\<close> and \<open>s.upper()\<close>.\<close>

definition lower :: "string \<Rightarrow> string" where
  "lower s = map lower_char s"

definition upper :: "string \<Rightarrow> string" where
  "upper s = map upper_char s"

text \<open>\<open>s.strip()\<close> with no argument: white space removed at both ends.\<close>

definition lstrip :: "string \<Rightarrow> string" where
  "lstrip s = dropWhile is_space s"

definition rstrip :: "string \<Rightarrow> string" where
  "rstrip s = rev (dropWhile is_space (rev s))"

definition strip :: "string \<Rightarrow> string" where
  "strip s = rstrip (lstrip s)"

text \<open>\<open>s.split('\n')\<close>: the pieces between line feeds; the result is never empty.\<close>

fun split_nl :: "string \<Rightarrow> string list" where
  "split_nl [] = [[]]"
| "split_nl (c # cs) =
     (if c = nl then [] # split_nl cs
      else (case split_nl cs of [] \<Rightarrow> [[c]] | l # ls \<Rightarrow> (c # l) # ls))"

text \<open>\<open>re.search\<close>: the first position, from the left, at which the pattern matches.
  The pattern is given as a matcher for the text that starts at a position.\<close>

fun re_search :: "(string \<Rightarrow> 'a option) \<Rightarrow> string \<Rightarrow> 'a option" where
  "re_search m [] = m []"
| "re_search m (c # cs) = (case m (c # cs) of Some r \<Rightarrow> Some r | None \<Rightarrow> re_search m cs)"

section \<open>create_refactor_issues.py: the plan parser\<close>

text \<open>The dictionary built for each task by \<open>parse_refactor_plan\<close>.\<close>

record task =
  task_id :: string
  title :: string
  priority :: string
  risk :: string
  effort :: string
  what :: string
  why :: string
  criteria :: string
  dependencies :: string

datatype py_error = IndexError | OSError | GitHubAPIError string

subsection \<open>The field patterns\<close>

text \<open>
  \<open>\*\*Label\*\*:\s+(\w+)\<close> at the start of \<open>s\<close>; the first argument is the literal text
  \<open>**Label**:\<close>. Both repetitions are greedy, and a shorter run of white space or of
  word characters cannot be followed by what the pattern needs next, so the longest
  runs are the only match. The result is group 1.
\<close>

definition match_word_field :: "string \<Rightarrow> string \<Rightarrow> string option" where
  "match_word_field label s =
     (if prefix label s then
        (let r = drop (length label) s;
             ws = takeWhile is_space r;
             w = takeWhile is_word (dropWhile is_space r)
         in if ws \<noteq> [] \<and> w \<noteq> [] then Some w else None)
      else None)"

text \<open>
  \<open>\s+(.+)\<close> after the label, without DOTALL: \<open>\s+\<close> first takes the whole run of white
  space; while \<open>.+\<close> finds no character other than a line feed at the position reached,
  \<open>\s+\<close> gives one character back, down to a single one. The first argument is the number of
  characters \<open>\s+\<close> holds. The result is group 1, the rest of that line.
\<close>

fun backtrack_line :: "nat \<Rightarrow> string \<Rightarrow> string option" where
  "backtrack_line 0 r = None"
| "backtrack_line (Suc j) r =
     (case drop (Suc j) r of
        [] \<Rightarrow> backtrack_line j r
      | c # cs \<Rightarrow> if c \<noteq> nl then Some (takeWhile (\<lambda>x. x \<noteq> nl) (c # cs))
                 else backtrack_line j r)"

definition match_line_field :: "string \<Rightarrow> string \<Rightarrow> string option" where
  "match_line_field label s =
     (if prefix label s then
        (let r = drop (length label) s
         in backtrack_line (length (takeWhile is_space r)) r)
      else None)"

text \<open>
  One item of \<open>(?:- .+\n?)\<close>: the marker \<open>- \<close>, at least one character up to the end of
  the line, and the line feed when there is one. The result is the item and the text
  after it.
\<close>

definition list_item :: "string \<Rightarrow> (string \<times> string) option" where
  "list_item s =
     (if prefix ''- '' s then
        (let r = drop 2 s;
             body = takeWhile (\<lambda>x. x \<noteq> nl) r;
             r' = dropWhile (\<lambda>x. x \<noteq> nl) r
         in if body = [] then None
            else (case r' of
                    [] \<Rightarrow> Some (''- '' @ body, [])
                  | c # cs \<Rightarrow> Some (''- '' @ body @ [c], cs)))
      else None)"

text \<open>One item of \<open>(?:- \[.\] .+\n?)\<close>: the same with a checkbox \<open>[c] \<close> after the
  marker, \<open>c\<close> any character but a line feed.\<close>

definition checkbox_item :: "string \<Rightarrow> (string \<times> string) option" where
  "checkbox_item s =
     (case s of
        a # b # c # d # e # f # r \<Rightarrow>
          if a = CHR ''-'' \<and> b = CHR '' '' \<and> c = CHR ''['' \<and> d \<noteq> nl
             \<and> e = CHR '']'' \<and> f = CHR '' '' then
            (let body = takeWhile (\<lambda>x. x \<noteq> nl) r;
                 r' = dropWhile (\<lambda>x. x \<noteq> nl) r
             in if body = [] then None
                else (case r' of
                        [] \<Rightarrow> Some ([a, b, c, d, e, f] @ body, [])
                      | x # xs \<Rightarrow> Some ([a, b, c, d, e, f] @ body @ [x], xs)))
          else None
      | _ \<Rightarrow> None)"

lemma list_item_shorter: "list_item s = Some (i, r) \<Longrightarrow> length r < length s"
proof -
  assume a: "list_item s = Some (i, r)"
  have le: "length (dropWhile (\<lambda>x. x \<noteq> nl) (drop 2 s)) \<le> length (drop 2 s)"
    by (rule length_dropWhile_le)
  from a have p: "prefix ''- '' s"
    by (auto simp: list_item_def split: if_splits)
  then have l2: "2 \<le> length s"
    by (auto simp: prefix_def)
  from a p have "length r \<le> length (dropWhile (\<lambda>x. x \<noteq> nl) (drop 2 s))"
    by (auto simp: list_item_def Let_def split: if_splits list.splits)
  with le l2 show ?thesis by simp
qed

lemma checkbox_item_shorter: "checkbox_item s = Some (i, r) \<Longrightarrow> length r < length s"
proof -
  assume a: "checkbox_item s = Some (i, r)"
  then obtain a1 a2 a3 a4 a5 a6 t where s: "s = a1 # a2 # a3 # a4 # a5 # a6 # t"
    by (auto simp: checkbox_item_def split: list.splits)
  have le: "length (dropWhile (\<lambda>x. x \<noteq> nl) t) \<le> length t"
    by (rule length_dropWhile_le)
  from a s have "length r \<le> length (dropWhile (\<lambda>x. x \<noteq> nl) t)"
    by (auto simp: checkbox_item_def Let_def split: if_splits list.splits)
  with le s show ?thesis by simp
qed

text \<open>The greedy repetitions \<open>(?:- .+\n?)+\<close> and \<open>(?:- \[.\] .+\n?)+\<close>: items are taken
  while one matches. Nothing follows the group in the patterns, so the repetition never
  gives an item back. The result is the text of the items taken; it is empty exactly when
  the first item fails.\<close>

function list_items :: "string \<Rightarrow> string" where
  "list_items s = (case list_item s of None \<Rightarrow> [] | Some (i, r) \<Rightarrow> i @ list_items r)"
  by pat_completeness auto
termination
  by (relation "measure length") (auto dest: list_item_shorter)

function checkbox_items :: "string \<Rightarrow> string" where
  "checkbox_items s =
     (case checkbox_item s of None \<Rightarrow> [] | Some (i, r) \<Rightarrow> i @ checkbox_items r)"
  by pat_completeness auto
termination
  by (relation "measure length") (auto dest: checkbox_item_shorter)

declare list_items.simps [simp del]
declare checkbox_items.simps [simp del]

text \<open>
  \<open>\s*\n((?:item)+)\<close> after the label: \<open>\s*\<close> first takes the whole run of white space and
  gives characters back one at a time, down to none, until a line feed follows it and at
  least one item follows that line feed. The first argument is the repetition of the
  item, the second the number of characters \<open>\s*\<close> holds. The result is group 1.
\<close>

fun backtrack_list :: "(string \<Rightarrow> string) \<Rightarrow> nat \<Rightarrow> string \<Rightarrow> string option" where
  "backtrack_list its j r =
     (let here = (case drop j r of
                    [] \<Rightarrow> None
                  | c # cs \<Rightarrow> if c = nl \<and> its cs \<noteq> [] then Some (its cs) else None)
      in case here of
           Some g \<Rightarrow> Some g
         | None \<Rightarrow> (case j of 0 \<Rightarrow> None | Suc j' \<Rightarrow> backtrack_list its j' r))"

declare backtrack_list.simps [simp del]

definition match_list_field :: "(string \<Rightarrow> string) \<Rightarrow> string \<Rightarrow> string \<Rightarrow> string option" where
  "match_list_field its label s =
     (if prefix label s then
        (let r = drop (length label) s
         in backtrack_list its (length (takeWhile is_space r)) r)
      else None)"

subsection \<open>The task pattern\<close>

text \<open>
  The lookahead \<open>(?=####|$)\<close>: the next heading marker follows, or the text ends here, or
  only the final line feed of the text is left (\<open>$\<close> without MULTILINE).
\<close>

definition at_end :: "string \<Rightarrow> bool" where
  "at_end s \<longleftrightarrow> prefix ''####'' s \<or> s = [] \<or> s = [nl]"

text \<open>The lazy \<open>.+?\<close> under DOTALL after its first character: characters are taken one
  at a time until the lookahead holds.\<close>

fun lazy_scan :: "string \<Rightarrow> string" where
  "lazy_scan [] = []"
| "lazy_scan (c # cs) = (if at_end (c # cs) then [] else c # lazy_scan cs)"

text \<open>
  \<open>\s+(.+?)(?=####|$)\<close> after the colon: \<open>\s+\<close> first takes the whole run of white space and
  gives one character back, down to a single one, while no character is left for \<open>.+?\<close>.
  The first argument is the number of characters \<open>\s+\<close> holds. The result is group 2 and the
  text after the match.
\<close>

fun task_backtrack :: "nat \<Rightarrow> string \<Rightarrow> (string \<times> string) option" where
  "task_backtrack 0 r = None"
| "task_backtrack (Suc j) r =
     (case drop (Suc j) r of
        [] \<Rightarrow> task_backtrack j r
      | c # cs \<Rightarrow> Some (c # lazy_scan cs, drop (length (lazy_scan cs)) cs))"

text \<open>
  \<open>####\s+TASK-(\d+):\s+(.+?)(?=####|$)\<close> at the start of \<open>s\<close>. The result is group 1,
  group 2 and the text after the match.
\<close>

definition match_task :: "string \<Rightarrow> (string \<times> string \<times> string) option" where
  "match_task s =
     (if prefix ''####'' s then
        (let r1 = drop 4 s;
             ws = takeWhile is_space r1;
             r2 = dropWhile is_space r1
         in if ws \<noteq> [] \<and> prefix ''TASK-'' r2 then
              (let r3 = drop 5 r2;
                   ds = takeWhile is_digit r3
               in if ds = [] then None
                  else (case dropWhile is_digit r3 of
                          [] \<Rightarrow> None
                        | c # r5 \<Rightarrow>
                            if c = CHR '':'' then
                              (case task_backtrack (length (takeWhile is_space r5)) r5 of
                                 None \<Rightarrow> None
                               | Some (block, rest) \<Rightarrow> Some (ds, block, rest))
                            else None))
            else None)
      else None)"

lemma task_backtrack_shorter: "task_backtrack j r = Some (b, rest) \<Longrightarrow> length rest < length r"
proof (induction j)
  case 0
  then show ?case by simp
next
  case (Suc j)
  show ?case
  proof (cases "drop (Suc j) r")
    case Nil
    with Suc show ?thesis by simp
  next
    case (Cons c cs)
    with Suc.prems have "rest = drop (length (lazy_scan cs)) cs" by simp
    then have "length rest \<le> length cs" by simp
    moreover have "length (drop (Suc j) r) = Suc (length cs)" using Cons by simp
    ultimately show ?thesis by simp
  qed
qed

lemma match_task_shorter: "match_task s = Some (ds, b, rest) \<Longrightarrow> length rest < length s"
proof -
  assume a: "match_task s = Some (ds, b, rest)"
  then obtain j r where tb: "task_backtrack j r = Some (b, rest)" and "length r \<le> length s"
  proof -
    let ?r2 = "dropWhile is_space (drop 4 s)"
    let ?r4 = "dropWhile is_digit (drop 5 ?r2)"
    from a obtain c r5 where r4: "?r4 = c # r5"
      and tb: "task_backtrack (length (takeWhile is_space r5)) r5 = Some (b, rest)"
      by (auto simp: match_task_def Let_def split: if_splits list.splits option.splits)
    have "length ?r4 \<le> length (drop 5 ?r2)" by (rule length_dropWhile_le)
    moreover have "length ?r2 \<le> length (drop 4 s)" by (rule length_dropWhile_le)
    ultimately have "length ?r4 \<le> length s" by simp
    with r4 have "length r5 \<le> length s" by simp
    with tb that show ?thesis by blast
  qed
  with task_backtrack_shorter [OF tb] show ?thesis by simp
qed

text \<open>\<open>re.finditer\<close> of the task pattern: the matches from left to right, each search
  starting where the previous match ended. The result is groups 1 and 2 of each match.\<close>

function finditer_tasks :: "string \<Rightarrow> (string \<times> string) list" where
  "finditer_tasks s =
     (case match_task s of
        Some (ds, block, rest) \<Rightarrow> (ds, block) # finditer_tasks rest
      | None \<Rightarrow> (case s of [] \<Rightarrow> [] | c # cs \<Rightarrow> finditer_tasks cs))"
  by pat_completeness auto
termination
  by (relation "measure length") (auto dest: match_task_shorter)

declare finditer_tasks.simps [simp del]

subsection \<open>parse_refactor_plan\<close>

text \<open>\<open>lines[0]\<close>: indexing a list raises IndexError when the list is empty.\<close>

definition first_item :: "'a list \<Rightarrow> py_error + 'a" where
  "first_item xs = (case xs of [] \<Rightarrow> Inl IndexError | x # _ \<Rightarrow> Inr x)"

text \<open>The body of the loop of \<open>parse_refactor_plan\<close> for one match, from its groups 1
  and 2.\<close>

definition parse_task :: "string \<Rightarrow> string \<Rightarrow> py_error + task" where
  "parse_task ds task_block =
     (case first_item (split_nl (strip task_block)) of
        Inl e \<Rightarrow> Inl e
      | Inr line0 \<Rightarrow>
          Inr \<lparr> task_id = ''TASK-'' @ ds,
                title = strip line0,
                priority = (case re_search (match_word_field ''**Priority**:'') task_block of
                              Some g \<Rightarrow> lower g | None \<Rightarrow> ''medium''),
                risk = (case re_search (match_word_field ''**Risk**:'') task_block of
                          Some g \<Rightarrow> lower g | None \<Rightarrow> ''medium''),
                effort = (case re_search (match_line_field ''**Effort**:'') task_block of
                            Some g \<Rightarrow> strip g | None \<Rightarrow> ''TBD''),
                what = (case re_search (match_list_field list_items ''**What**:'') task_block of
                          Some g \<Rightarrow> strip g | None \<Rightarrow> []),
                why = (case re_search (match_list_field list_items ''**Why**:'') task_block of
                         Some g \<Rightarrow> strip g | None \<Rightarrow> []),
                criteria = (case re_search (match_list_field checkbox_items
                                              ''**Acceptance Criteria**:'') task_block of
                              Some g \<Rightarrow> strip g | None \<Rightarrow> []),
                dependencies = (case re_search (match_line_field ''**Dependencies**:'')
                                       task_block of
                                  Some g \<Rightarrow> strip g | None \<Rightarrow> ''None'') \<rparr>)"

text \<open>The loop over the matches: an exception in one iteration leaves the loop.\<close>

fun parse_matches :: "(string \<times> string) list \<Rightarrow> py_error + task list" where
  "parse_matches [] = Inr []"
| "parse_matches ((ds, block) # ms) =
     (case parse_task ds block of
        Inl e \<Rightarrow> Inl e
      | Inr t \<Rightarrow> (case parse_matches ms of Inl e \<Rightarrow> Inl e | Inr ts \<Rightarrow> Inr (t # ts)))"

text \<open>The plan file as the script finds it: absent, present but not readable as UTF-8
  text, or present with its text.\<close>

datatype plan_file = Missing | Unreadable | Plan string

definition parse_refactor_plan :: "plan_file \<Rightarrow> py_error + task list" where
  "parse_refactor_plan f =
     (case f of
        Plan content \<Rightarrow> parse_matches (finditer_tasks content)
      | _ \<Rightarrow> Inl OSError)"

section \<open>create_refactor_issues.py: issues\<close>

definition create_issue_body :: "task \<Rightarrow> string" where
  "create_issue_body t =
     ''**Task ID:** '' @ task_id t @ [nl] @
     ''**Priority:** '' @ upper (priority t) @ [nl] @
     ''**Risk:** '' @ upper (risk t) @ [nl] @
     ''**Effort:** '' @ effort t @ [nl] @
     [nl] @ ''## What'' @ [nl] @ [nl] @ what t @ [nl] @
     [nl] @ ''## Why'' @ [nl] @ [nl] @ why t @ [nl] @
     [nl] @ ''## Acceptance Criteria'' @ [nl] @ [nl] @ criteria t @ [nl] @
     [nl] @ ''## Dependencies'' @ [nl] @ [nl] @ dependencies t @ [nl] @
     [nl] @ ''---'' @ [nl] @
     [nl] @ ''**Part of legacy code modernization workflow.**'' @ [nl] @
     [nl] @ ''See: `docs/modernization/refactor-plan.md`'' @ [nl]"

text \<open>The dictionary \<open>mapping\<close> of \<open>get_priority_label\<close>.\<close>

definition mapping :: "(string \<times> string) list" where
  "mapping = [(''urgent'', ''priority:high''), (''high'', ''priority:high''),
              (''medium'', ''priority:medium''), (''low'', ''priority:low'')]"

definition get_priority_label :: "string \<Rightarrow> string" where
  "get_priority_label p =
     (case map_of mapping (lower p) of Some l \<Rightarrow> l | None \<Rightarrow> ''priority:medium'')"

text \<open>The arguments of one call of \<open>api.create_issue\<close>.\<close>

record issue =
  issue_title :: string
  issue_body :: string
  labels :: "string list"
  add_to_project :: bool
  column_name :: string

text \<open>The issue that the loop of \<open>main\<close> builds for a task.\<close>

definition issue_labels :: "task \<Rightarrow> string list" where
  "issue_labels t =
     [''modernization'', get_priority_label (priority t)] @
     (if lower (risk t) = ''high'' then [''high-risk''] else [])"

definition issue_of :: "task \<Rightarrow> issue" where
  "issue_of t =
     \<lparr> issue_title = ''[Modernization] '' @ task_id t @ '': '' @ title t,
       issue_body = create_issue_body t,
       labels = issue_labels t,
       add_to_project = True,
       column_name = ''Backlog'' \<rparr>"

text \<open>
  The tracker client, which is not part of these scripts: \<open>GitHubAPI()\<close> either raises
  \<open>GitHubAPIError\<close> or gives a client; \<open>create_issue\<close> of a client, in a state \<open>'s\<close> of the
  tracker, either raises \<open>GitHubAPIError\<close> (\<open>Inl\<close> with its message) or returns an issue with
  its number, and leaves the tracker in a new state.
\<close>

type_synonym 's create_issue = "'s \<Rightarrow> issue \<Rightarrow> (string + nat) \<times> 's"

record batch =
  created_issues :: "(string \<times> nat) list"
  failed_issues :: "string list"
  calls :: "issue list"

text \<open>The loop \<open>for task in tasks\<close> of \<open>main\<close>. \<open>calls\<close> records the calls of
  \<open>create_issue\<close> in the order they are made.\<close>

fun publish :: "'s create_issue \<Rightarrow> 's \<Rightarrow> task list \<Rightarrow> batch \<Rightarrow> batch" where
  "publish api st [] b = b"
| "publish api st (t # ts) b =
     (case api st (issue_of t) of
        (Inr number, st') \<Rightarrow>
          publish api st' ts
            (b\<lparr> created_issues := created_issues b @ [(task_id t, number)],
                calls := calls b @ [issue_of t] \<rparr>)
      | (Inl e, st') \<Rightarrow>
          publish api st' ts
            (b\<lparr> failed_issues := failed_issues b @ [task_id t],
                calls := calls b @ [issue_of t] \<rparr>))"

record run =
  exit_code :: int
  outcome :: batch

definition no_batch :: batch where
  "no_batch = \<lparr> created_issues = [], failed_issues = [], calls = [] \<rparr>"

text \<open>
  \<open>main\<close>, from the plan file and the result of \<open>GitHubAPI()\<close> (\<open>Inl\<close> its
  \<open>GitHubAPIError\<close>, \<open>Inr\<close> the client with the state of the tracker). An exception that
  \<open>main\<close> does not catch is the result \<open>Inl\<close>.
\<close>

definition main :: "plan_file \<Rightarrow> string + ('s create_issue \<times> 's) \<Rightarrow> py_error + run" where
  "main plan github =
     (if plan = Missing then Inr \<lparr> exit_code = 1, outcome = no_batch \<rparr>
      else
        (case parse_refactor_plan plan of
           Inl e \<Rightarrow> Inl e
         | Inr tasks \<Rightarrow>
             if tasks = [] then Inr \<lparr> exit_code = 1, outcome = no_batch \<rparr>
             else
               (case github of
                  Inl e \<Rightarrow> Inr \<lparr> exit_code = 1, outcome = no_batch \<rparr>
                | Inr (api, st) \<Rightarrow>
                    (let b = publish api st tasks no_batch
                     in Inr \<lparr> exit_code = (if failed_issues b = [] then 0 else 1),
                              outcome = b \<rparr>))))"

text \<open>The responses of the tracker to the calls of the loop, in order.\<close>

fun responses :: "'s create_issue \<Rightarrow> 's \<Rightarrow> task list \<Rightarrow> (string + nat) list" where
  "responses api st [] = []"
| "responses api st (t # ts) =
     (case api st (issue_of t) of (r, st') \<Rightarrow> r # responses api st' ts)"

text \<open>The tasks whose call returned an issue, with its number, and the tasks whose call
  raised, for a list of tasks and the responses to their calls.\<close>

definition created_of :: "task list \<Rightarrow> (string + nat) list \<Rightarrow> (string \<times> nat) list" where
  "created_of ts rs =
     concat (map (\<lambda>(t, r). case r of Inr n \<Rightarrow> [(task_id t, n)] | Inl e \<Rightarrow> []) (zip ts rs))"

definition failed_of :: "task list \<Rightarrow> (string + nat) list \<Rightarrow> string list" where
  "failed_of ts rs =
     concat (map (\<lambda>(t, r). case r of Inr n \<Rightarrow> [] | Inl e \<Rightarrow> [task_id t]) (zip ts rs))"

section \<open>assess_codebase.py: the measures of a file\<close>

text \<open>\<open>str(n)\<close> of a natural number, and \<open>format(n, ',')\<close>, the same with a comma
  between the groups of three digits.\<close>

function show_nat :: "nat \<Rightarrow> string" where
  "show_nat n =
     (if n < 10 then [char_of (48 + n)]
      else show_nat (n div 10) @ [char_of (48 + n mod 10)])"
  by pat_completeness auto
termination
  by (relation "measure id") auto

declare show_nat.simps [simp del]




text \<open>\<open>sep.join(xs)\<close>.\<close>

fun join :: "string \<Rightarrow> string list \<Rightarrow> string" where
  "join sep [] = []"
| "join sep [x] = x"
| "join sep (x # y # ys) = x @ sep @ join sep (y # ys)"

text \<open>The lines of a text as the iteration over an open file gives them, each with its
  line feed; the text is the one Python reads in text mode, line ends translated.\<close>

fun file_lines :: "string \<Rightarrow> string list" where
  "file_lines [] = []"
| "file_lines (c # cs) =
     (if c = nl then [nl] # file_lines cs
      else (case file_lines cs of [] \<Rightarrow> [[c]] | l # ls \<Rightarrow> (c # l) # ls))"

text \<open>\<open>s.count(sub)\<close>: the occurrences of \<open>sub\<close> in \<open>s\<close> that do not overlap, found from
  the left.\<close>

function str_count :: "string \<Rightarrow> string \<Rightarrow> nat" where
  "str_count sub s =
     (if sub = [] then Suc (length s)
      else if length s < length sub then 0
      else if prefix sub s then Suc (str_count sub (drop (length sub) s))
      else str_count sub (tl s))"
  by pat_completeness auto
termination
proof (relation "measure (\<lambda>(sub, s). length s)")
  show "wf (measure (\<lambda>(sub, s). length s))" by simp
next
  fix sub s :: string
  assume "sub \<noteq> []" "\<not> length s < length sub"
  then show "((sub, drop (length sub) s), (sub, s)) \<in> measure (\<lambda>(sub, s). length s)"
    by (cases sub; cases s) auto
next
  fix sub s :: string
  assume "sub \<noteq> []" "\<not> length s < length sub"
  then show "((sub, tl s), (sub, s)) \<in> measure (\<lambda>(sub, s). length s)"
    by (cases sub; cases s) auto
qed

declare str_count.simps [simp del]

text \<open>\<open>s.split(sep, 1)[0]\<close> for a separator that is not empty: the text before the first
  occurrence of the separator, all of \<open>s\<close> when there is none.\<close>

fun before_first :: "string \<Rightarrow> string \<Rightarrow> string" where
  "before_first sep [] = []"
| "before_first sep (c # cs) = (if prefix sep (c # cs) then [] else c # before_first sep cs)"

text \<open>
  \<open>def\s+(\w+)\s*\(\<close> at the start of \<open>s\<close>. The repetitions are greedy, and a shorter run
  cannot be followed by what the pattern needs next, so the longest runs are the only
  match. The result is group 1 and the text after the match.
\<close>

definition match_def :: "string \<Rightarrow> (string \<times> string) option" where
  "match_def s =
     (if prefix ''def'' s then
        (let r = drop 3 s;
             ws = takeWhile is_space r;
             r2 = dropWhile is_space r;
             name = takeWhile is_word r2;
             r4 = dropWhile is_space (dropWhile is_word r2)
         in if ws \<noteq> [] \<and> name \<noteq> [] then
              (case r4 of
                 [] \<Rightarrow> None
               | c # r5 \<Rightarrow> if c = CHR ''('' then Some (name, r5) else None)
            else None)
      else None)"

lemma match_def_shorter: "match_def s = Some (n, rest) \<Longrightarrow> length rest < length s"
proof -
  assume a: "match_def s = Some (n, rest)"
  let ?r2 = "dropWhile is_space (drop 3 s)"
  let ?r4 = "dropWhile is_space (dropWhile is_word ?r2)"
  from a obtain c where r4: "?r4 = c # rest"
    by (auto simp: match_def_def Let_def split: if_splits list.splits)
  have "length ?r4 \<le> length (dropWhile is_word ?r2)" by (rule length_dropWhile_le)
  moreover have "length (dropWhile is_word ?r2) \<le> length ?r2" by (rule length_dropWhile_le)
  moreover have "length ?r2 \<le> length (drop 3 s)" by (rule length_dropWhile_le)
  ultimately have "length ?r4 \<le> length s" by simp
  with r4 show ?thesis by simp
qed

text \<open>\<open>re.finditer(func_pattern, content)\<close>: the matches from left to right. The result
  is, for each match, group 1 and \<open>content[func.start():]\<close>, the text from the start of
  the match to the end of the content.\<close>

function finditer_defs :: "string \<Rightarrow> (string \<times> string) list" where
  "finditer_defs s =
     (case match_def s of
        Some (name, rest) \<Rightarrow> (name, s) # finditer_defs rest
      | None \<Rightarrow> (case s of [] \<Rightarrow> [] | c # cs \<Rightarrow> finditer_defs cs))"
  by pat_completeness auto
termination
  by (relation "measure length") (auto dest: match_def_shorter)

declare finditer_defs.simps [simp del]

text \<open>The list \<open>keywords\<close> of \<open>detect_complexity\<close>.\<close>

definition scored_keywords :: "string list" where
  "scored_keywords = [''if'', ''for'', ''while'', ''and'', ''or'', ''elif'', ''except'']"

text \<open>The sum of \<open>detect_complexity\<close>, for the text in which it counts.\<close>

definition complexity :: "string \<Rightarrow> nat" where
  "complexity window = sum_list (map (\<lambda>keyword. str_count keyword window) scored_keywords)"

text \<open>The text in which \<open>detect_complexity\<close> counts, for the text that starts at a match:
  \<open>content[func.start():].split('def', 1)[0]\<close>.\<close>

definition body_window :: "string \<Rightarrow> string" where
  "body_window from_start = before_first ''def'' from_start"

text \<open>
  \<open>detect_complexity\<close>, from the text of the file; \<open>None\<close> is a file that does not open or
  does not decode, for which the exception handler returns the empty list.
\<close>

definition detect_complexity :: "string option \<Rightarrow> (string \<times> nat) list" where
  "detect_complexity file_text =
     (case file_text of
        None \<Rightarrow> []
      | Some content \<Rightarrow>
          concat (map (\<lambda>(func_name, from_start).
                         if complexity (body_window from_start) > 10
                         then [(func_name, complexity (body_window from_start))] else [])
                      (finditer_defs content)))"

text \<open>The window the comment of \<open>detect_complexity\<close> describes, the body of the function:
  the text from the start of the match to the next \<open>def\<close> after the one of the match.\<close>

definition spec_body_window :: "string \<Rightarrow> string" where
  "spec_body_window from_start = take 3 from_start @ before_first ''def'' (drop 3 from_start)"

definition count_lines :: "string option \<Rightarrow> nat" where
  "count_lines file_text =
     (case file_text of None \<Rightarrow> 0 | Some content \<Rightarrow> length (file_lines content))"

text \<open>
  \<open>find_todos\<close>, from the name of the file and the lines that the iteration over the open
  file gives before it ends or raises: the comments found in these lines are returned in
  both cases, since the exception handler returns the list as it stands.
\<close>

definition find_todos :: "string \<Rightarrow> string list \<Rightarrow> string list" where
  "find_todos name lines_read =
     concat (map (\<lambda>(line_num, line).
                    if sublist ''TODO'' line \<or> sublist ''FIXME'' line
                    then [name @ '':'' @ show_nat line_num @ '': '' @ strip line] else [])
                 (zip [1 ..< Suc (length lines_read)] lines_read))"

section \<open>assess_codebase.py: the directory and its analysis\<close>

text \<open>
  The directory under analysis: the parts of its absolute path, the paths below it in the
  order \<open>rglob\<close> walks them, each with its parts relative to the root, whether it is a
  directory, its text when it is a file that opens and decodes as UTF-8, and otherwise the
  lines that a reader gets before the exception, none when the path does not open; and
  the names of the dependencies of \<open>package.json\<close>, \<open>None\<close> when loading it raises.
\<close>

record entry =
  rel_parts :: "string list"
  is_dir :: bool
  file_text :: "string option"
  lines_before_error :: "string list"

record root_dir =
  root_parts :: "string list"
  entries :: "entry list"
  package_deps :: "string list option"

text \<open>The lines that the iteration over the open file gives before it ends or raises.\<close>

definition lines_read :: "entry \<Rightarrow> string list" where
  "lines_read e =
     (case file_text e of Some content \<Rightarrow> file_lines content | None \<Rightarrow> lines_before_error e)"

text \<open>\<open>path.name\<close> and \<open>str(path.relative_to(root_dir))\<close>.\<close>

definition path_name :: "entry \<Rightarrow> string" where
  "path_name e = (case rev (rel_parts e) of [] \<Rightarrow> [] | n # _ \<Rightarrow> n)"

definition rel_path :: "entry \<Rightarrow> string" where
  "rel_path e = join ''/'' (rel_parts e)"

text \<open>A pattern \<open>pre*suf\<close> of \<open>rglob\<close>, as the pair of the texts around its star, and the
  paths below the root whose name matches it.\<close>

definition glob :: "string \<times> string \<Rightarrow> string \<Rightarrow> bool" where
  "glob pat name \<longleftrightarrow>
     prefix (fst pat) name \<and> suffix (snd pat) name
     \<and> length (fst pat) + length (snd pat) \<le> length name"

definition rglob :: "root_dir \<Rightarrow> string \<times> string \<Rightarrow> entry list" where
  "rglob root pat = filter (\<lambda>e. glob pat (path_name e)) (entries root)"

definition full_parts :: "root_dir \<Rightarrow> entry \<Rightarrow> string list" where
  "full_parts root e = root_parts root @ rel_parts e"

definition find_python_files :: "root_dir \<Rightarrow> entry list" where
  "find_python_files root =
     filter (\<lambda>e. \<not> list_ex (\<lambda>part. prefix ''.'' part
                                  \<or> part \<in> set [''venv'', ''.venv'', ''node_modules''])
                          (full_parts root e))
       (rglob root ([], ''.py''))"

definition find_js_ts_files :: "root_dir \<Rightarrow> entry list" where
  "find_js_ts_files root =
     concat (map (\<lambda>pat. filter (\<lambda>e. \<not> list_ex (\<lambda>part. prefix ''.'' part
                                                       \<or> part = ''node_modules'')
                                               (full_parts root e))
                           (rglob root pat))
                 [([], ''.js''), ([], ''.jsx''), ([], ''.ts''), ([], ''.tsx'')])"

text \<open>The dictionary \<open>results\<close>.\<close>

record results =
  total_files :: nat
  total_lines :: nat
  languages :: "(string \<times> nat) list"
  large_files :: "(string \<times> nat) list"
  complex_functions :: "(string \<times> string \<times> nat) list"
  todos :: "string list"
  test_files :: nat
  framework :: string

definition initial_results :: results where
  "initial_results =
     \<lparr> total_files = 0, total_lines = 0, languages = [], large_files = [],
       complex_functions = [], todos = [], test_files = 0, framework = ''Unknown'' \<rparr>"

text \<open>The bodies of the loops over the Python files and over the JavaScript and
  TypeScript files. The detector of complex functions is an argument of the first.\<close>

definition py_step ::
  "(string option \<Rightarrow> (string \<times> nat) list) \<Rightarrow> results \<Rightarrow> entry \<Rightarrow> results" where
  "py_step detect r py_file =
     (let lines = count_lines (file_text py_file)
      in r\<lparr> total_lines := total_lines r + lines,
            large_files := large_files r @
              (if lines > 500 then [(rel_path py_file, lines)] else []),
            complex_functions := complex_functions r @
              map (\<lambda>(func_name, c). (rel_path py_file, func_name, c))
                  (detect (file_text py_file)),
            todos := todos r @ find_todos (path_name py_file) (lines_read py_file) \<rparr>)"

definition js_step :: "results \<Rightarrow> entry \<Rightarrow> results" where
  "js_step r js_file =
     (let lines = count_lines (file_text js_file)
      in r\<lparr> total_lines := total_lines r + lines,
            large_files := large_files r @
              (if lines > 500 then [(rel_path js_file, lines)] else []),
            todos := todos r @ find_todos (path_name js_file) (lines_read js_file) \<rparr>)"

definition path_exists :: "root_dir \<Rightarrow> string \<Rightarrow> bool" where
  "path_exists root name \<longleftrightarrow> list_ex (\<lambda>e. rel_parts e = [name]) (entries root)"

definition detect_framework :: "root_dir \<Rightarrow> string" where
  "detect_framework root =
     (if path_exists root ''manage.py'' then ''Django''
      else if path_exists root ''app.py'' \<or> path_exists root ''wsgi.py'' then ''Flask''
      else if path_exists root ''package.json'' then
        (case package_deps root of
           None \<Rightarrow> ''Unknown''
         | Some deps \<Rightarrow>
             if ''react'' \<in> set deps then ''React''
             else if ''express'' \<in> set deps then ''Express''
             else ''Unknown'')
      else ''Unknown'')"

definition test_patterns :: "(string \<times> string) list" where
  "test_patterns = [(''test_'', ''.py''), ([], ''_test.py''), ([], ''.test.js''),
                    ([], ''.test.ts''), ([], ''.spec.js''), ([], ''.spec.ts'')]"

text \<open>\<open>analyze_codebase\<close>, with the detector of complex functions as an argument.\<close>

definition analyze_with ::
  "(string option \<Rightarrow> (string \<times> nat) list) \<Rightarrow> root_dir \<Rightarrow> results" where
  "analyze_with detect root =
     (let python_files = find_python_files root;
          r1 = (if python_files \<noteq> [] then
                  foldl (py_step detect)
                    (initial_results\<lparr> languages := [(''Python'', length python_files)],
                                      total_files := length python_files \<rparr>)
                    python_files
                else initial_results);
          js_files = find_js_ts_files root;
          r2 = (if js_files \<noteq> [] then
                  foldl js_step
                    (r1\<lparr> languages := languages r1 @
                                           [(''JavaScript/TypeScript'', length js_files)],
                         total_files := total_files r1 + length js_files \<rparr>)
                    js_files
                else r1)
      in r2\<lparr> framework := detect_framework root,
             test_files := sum_list (map (\<lambda>pat. length (rglob root pat)) test_patterns) \<rparr>)"

definition analyze_codebase :: "root_dir \<Rightarrow> results" where
  "analyze_codebase root = analyze_with detect_complexity root"

text \<open>What one file adds to the large files, to the complex functions and to the TODO
  comments.\<close>

definition large_of :: "entry \<Rightarrow> (string \<times> nat) list" where
  "large_of e =
     (if count_lines (file_text e) > 500 then [(rel_path e, count_lines (file_text e))] else [])"

definition complex_of ::
  "(string option \<Rightarrow> (string \<times> nat) list) \<Rightarrow> entry \<Rightarrow> (string \<times> string \<times> nat) list" where
  "complex_of detect e = map (\<lambda>(func_name, c). (rel_path e, func_name, c)) (detect (file_text e))"

definition todos_of :: "entry \<Rightarrow> string list" where
  "todos_of e = find_todos (path_name e) (lines_read e)"

section \<open>assess_codebase.py: the report\<close>











































subsection \<open>Example inputs\<close>





definition plan3 :: string where
  "plan3 = ''#### TASK-1: A\<newline>#### TASK-2: B\<newline>#### TASK-3: C\<newline>''"

text \<open>A task with nothing but an id and a title, as the parser builds it.\<close>

definition plain_task :: "string \<Rightarrow> string \<Rightarrow> task" where
  "plain_task i t = \<lparr> task_id = i, title = t, priority = ''medium'', risk = ''medium'',
     effort = ''TBD'', what = [], why = [], criteria = [], dependencies = ''None'' \<rparr>"

text \<open>A tracker whose second call fails; its state counts the calls.\<close>

definition flaky :: "nat create_issue" where
  "flaky st i = (if st = 1 then Inl ''HTTP 500'' else Inr (100 + st), st + 1)"

text \<open>A Python file with one function of eleven branches.\<close>

definition branchy :: string where
  "branchy =
     ''def f(x):\<newline>'' @
     ''    if x: pass\<newline>    if x: pass\<newline>    if x: pass\<newline>'' @
     ''    if x: pass\<newline>    if x: pass\<newline>    if x: pass\<newline>'' @
     ''    if x: pass\<newline>    if x: pass\<newline>    if x: pass\<newline>'' @
     ''    if x: pass\<newline>    if x: pass\<newline>''"

text \<open>A small project: a Python file and a JavaScript file, each with a comment to find,
  below a root with a hidden directory.\<close>

definition src_a_py :: entry where
  "src_a_py = \<lparr> rel_parts = [''src'', ''a.py''], is_dir = False,
                 file_text = Some ''x = 1\<newline># TODO: fix me\<newline>'',
                 lines_before_error = [] \<rparr>"

definition web_b_js :: entry where
  "web_b_js = \<lparr> rel_parts = [''web'', ''b.js''], is_dir = False,
                 file_text = Some ''// FIXME later'', lines_before_error = [] \<rparr>"

definition dir_entry :: "string \<Rightarrow> entry" where
  "dir_entry name =
     \<lparr> rel_parts = [name], is_dir = True, file_text = None, lines_before_error = [] \<rparr>"

definition small_root :: root_dir where
  "small_root = \<lparr> root_parts = [''/'', ''home'', ''proj''],
                   entries = [dir_entry ''web'', web_b_js, dir_entry ''src'', src_a_py,
                              dir_entry ''.git''],
                   package_deps = None \<rparr>"

text \<open>A detector that reports one function for every file.\<close>

definition loud_detector :: "string option \<Rightarrow> (string \<times> nat) list" where
  "loud_detector t = [(''f'', 11)]"





section \<open>Properties of the plan parser and of the issues\<close>

lemma lower_char_idem: "lower_char (lower_char c) = lower_char c"
  by (auto simp: lower_char_def is_upper_def Let_def)

lemma lower_idem: "lower (lower s) = lower s"
  by (simp add: lower_def lower_char_idem)

lemma split_nl_nonempty: "split_nl s \<noteq> []"
  by (induction s) (auto split: list.splits)

lemma parse_task_total: "\<exists>t. parse_task ds block = Inr t"
  using split_nl_nonempty [of "strip block"]
  by (auto simp: parse_task_def first_item_def split: list.splits)

lemma parse_matches_total: "\<exists>ts. parse_matches ms = Inr ts \<and> length ts = length ms"
proof (induction ms)
  case Nil
  then show ?case by simp
next
  case (Cons m ms)
  obtain ds block where m: "m = (ds, block)" by (cases m)
  from parse_task_total obtain t where "parse_task ds block = Inr t" by blast
  with Cons m show ?case by auto
qed





lemma publish_eq:
  "publish api st ts b =
     \<lparr> created_issues = created_issues b @ created_of ts (responses api st ts),
       failed_issues = failed_issues b @ failed_of ts (responses api st ts),
       calls = calls b @ map issue_of ts \<rparr>"
proof (induction ts arbitrary: st b)
  case Nil
  then show ?case by (simp add: created_of_def failed_of_def)
next
  case (Cons t ts)
  obtain r st' where a: "api st (issue_of t) = (r, st')" by (cases "api st (issue_of t)")
  show ?case
  proof (cases r)
    case (Inl e)
    with a Cons show ?thesis by (simp add: created_of_def failed_of_def)
  next
    case (Inr n)
    with a Cons show ?thesis by (simp add: created_of_def failed_of_def)
  qed
qed

lemma length_responses: "length (responses api st ts) = length ts"
  by (induction ts arbitrary: st) (auto split: prod.splits)

text \<open>
  C9 (as the code has it). \<open>get_priority_label\<close> lower-cases its argument before it looks
  it up: \<open>HIGH\<close> is none of the four keys and still maps to \<open>priority:high\<close>, not to
  \<open>priority:medium\<close>.
\<close>

theorem get_priority_label_upper_case:
  "''HIGH'' \<notin> set (map fst mapping) \<and> get_priority_label ''HIGH'' \<noteq> ''priority:medium''"
  by code_simp

text \<open>
  C9 (amended). The labels of the issue of a task are \<open>modernization\<close>, the priority label
  of its priority and, exactly when its lower-cased risk is \<open>high\<close>, \<open>high-risk\<close>. The
  priority label of a text is decided by its lower-cased form: \<open>priority:high\<close> for
  \<open>urgent\<close> and \<open>high\<close>, \<open>priority:medium\<close> for \<open>medium\<close>, \<open>priority:low\<close> for \<open>low\<close>,
  and \<open>priority:medium\<close> for every other form. The title of the issue is
  \<open>[Modernization] \<close>, the id, \<open>: \<close> and the title of the task.
\<close>

theorem issue_labels_and_title:
  "labels (issue_of t) =
     [''modernization'', get_priority_label (priority t)] @
     (if lower (risk t) = ''high'' then [''high-risk''] else [])
   \<and> get_priority_label p =
     (if lower p = ''urgent'' \<or> lower p = ''high'' then ''priority:high''
      else if lower p = ''medium'' then ''priority:medium''
      else if lower p = ''low'' then ''priority:low''
      else ''priority:medium'')
   \<and> issue_title (issue_of t) = ''[Modernization] '' @ task_id t @ '': '' @ title t"
  by (simp add: issue_of_def issue_labels_def get_priority_label_def mapping_def)

lemma first_item_split_nl: "first_item (split_nl s) = Inr (takeWhile (\<lambda>c. c \<noteq> nl) s)"
proof (induction s)
  case Nil
  then show ?case by (simp add: first_item_def)
next
  case (Cons c cs)
  then show ?case by (auto simp: first_item_def split: list.splits)
qed

lemma parse_task_title:
  "parse_task ds b = Inr t \<Longrightarrow> title t = strip (takeWhile (\<lambda>c. c \<noteq> nl) (strip b))"
  by (auto simp: parse_task_def first_item_split_nl)

lemma parse_task_id: "parse_task ds b = Inr t \<Longrightarrow> task_id t = ''TASK-'' @ ds"
  by (auto simp: parse_task_def first_item_split_nl)

text \<open>The parser lower-cases the priority and the risk, so lower-casing them again
  changes nothing.\<close>

lemma parsed_task_lower_case:
  assumes "parse_task ds b = Inr t"
  shows "lower (priority t) = priority t \<and> lower (risk t) = risk t"
proof -
  have m: "lower ''medium'' = ''medium''" by code_simp
  from assms show ?thesis
    by (auto simp: parse_task_def first_item_split_nl lower_idem m split: option.splits)
qed

lemma parse_matches_titles:
  "parse_matches ms = Inr ts \<Longrightarrow>
     map title ts = map (\<lambda>(ds, b). strip (takeWhile (\<lambda>c. c \<noteq> nl) (strip b))) ms"
proof (induction ms arbitrary: ts)
  case Nil
  then show ?case by simp
next
  case (Cons m ms)
  obtain ds b where m: "m = (ds, b)" by (cases m)
  from Cons.prems m obtain t ts' where t: "parse_task ds b = Inr t"
    and ts': "parse_matches ms = Inr ts'" and ts: "ts = t # ts'"
    by (auto split: sum.splits)
  from Cons.IH [OF ts'] parse_task_title [OF t] m ts show ?case by simp
qed

lemma rstrip_append:
  "rstrip (a @ b) = (if \<forall>c\<in>set b. is_space c then rstrip a else a @ rstrip b)"
  by (simp add: rstrip_def dropWhile_append)

lemma rstrip_prefix: "prefix (rstrip s) s"
proof -
  have "suffix (dropWhile is_space (rev s)) (rev s)" by (rule suffix_dropWhile)
  then show ?thesis by (simp add: rstrip_def suffix_to_prefix)
qed

lemma rstrip_idem: "rstrip (rstrip s) = rstrip s"
proof (cases "dropWhile is_space (rev s)")
  case Nil
  then show ?thesis by (simp add: rstrip_def)
next
  case (Cons x xs)
  then have "\<not> is_space x" by (metis dropWhile_eq_Cons_conv)
  with Cons show ?thesis by (simp add: rstrip_def)
qed

lemma rstrip_nonspace_hd:
  assumes "s \<noteq> []" "\<not> is_space (hd s)"
  shows "rstrip s \<noteq> [] \<and> hd (rstrip s) = hd s"
proof -
  from assms obtain c cs where s: "s = c # cs" and c: "\<not> is_space c" by (cases s) auto
  have "rstrip ([c] @ cs) = (if \<forall>x\<in>set cs. is_space x then rstrip [c] else [c] @ rstrip cs)"
    by (rule rstrip_append)
  moreover from c have "rstrip [c] = [c]" by (simp add: rstrip_def)
  ultimately show ?thesis using s by auto
qed

lemma lstrip_nonspace_hd: "s \<noteq> [] \<Longrightarrow> \<not> is_space (hd s) \<Longrightarrow> lstrip s = s"
  by (cases s) (auto simp: lstrip_def)

text \<open>The first line of the stripped block is the heading text.\<close>

lemma title_of_block:
  assumes t: "t \<noteq> []" "\<not> is_space (hd t)" "nl \<notin> set t"
    and b: "b = [] \<or> hd b = nl"
  shows "strip (takeWhile (\<lambda>c. c \<noteq> nl) (strip (t @ b))) = strip t"
proof -
  have st: "strip t = rstrip t" using t by (simp add: strip_def lstrip_nonspace_hd)
  have "t @ b \<noteq> []" "\<not> is_space (hd (t @ b))" using t by auto
  then have sb: "strip (t @ b) = rstrip (t @ b)" by (simp add: strip_def lstrip_nonspace_hd)
  from rstrip_nonspace_hd [OF t(1,2)] have r: "rstrip t \<noteq> []" "\<not> is_space (hd (rstrip t))"
    using t by auto
  have nlr: "nl \<notin> set (rstrip t)" using rstrip_prefix [of t] t(3) by (auto dest: set_mono_prefix)
  show ?thesis
  proof (cases "\<forall>c\<in>set b. is_space c")
    case True
    then have a: "strip (t @ b) = rstrip t" using sb by (simp add: rstrip_append)
    have tw: "takeWhile (\<lambda>c. c \<noteq> nl) (rstrip t) = rstrip t"
      using nlr by (auto simp: takeWhile_eq_all_conv)
    have c: "strip (rstrip t) = rstrip t"
      using r by (simp add: strip_def lstrip_nonspace_hd rstrip_idem)
    show ?thesis by (simp only: a tw c st)
  next
    case False
    then have s1: "strip (t @ b) = t @ rstrip b" using sb by (auto simp: rstrip_append)
    from False have bne: "b \<noteq> []" by auto
    with b have hb: "hd b = nl" by simp
    from False have "rstrip b \<noteq> []" by (auto simp: rstrip_def dropWhile_eq_Nil_conv)
    moreover have "prefix (rstrip b) b" by (rule rstrip_prefix)
    ultimately have "hd (rstrip b) = nl" using hb bne by (cases "rstrip b"; cases b) auto
    with \<open>rstrip b \<noteq> []\<close> obtain bs where "rstrip b = nl # bs" by (cases "rstrip b") auto
    with s1 t(3) have "takeWhile (\<lambda>c. c \<noteq> nl) (strip (t @ b)) = t"
      by (simp add: takeWhile_append)
    then show ?thesis by simp
  qed
qed

lemma lazy_scan_prefix: "prefix (lazy_scan s) s"
  by (induction s) auto

lemma lazy_scan_append:
  assumes "nl \<notin> set t" "CHR ''#'' \<notin> set t"
  shows "lazy_scan (t @ r) = t @ lazy_scan r"
  using assms
proof (induction t)
  case Nil
  then show ?case by simp
next
  case (Cons c cs)
  then have "\<not> at_end ((c # cs) @ r)" by (auto simp: at_end_def prefix_def)
  with Cons show ?case by simp
qed

lemma lazy_scan_shape:
  assumes "r = [] \<or> hd r = nl"
  shows "lazy_scan r = [] \<or> hd (lazy_scan r) = nl"
  using lazy_scan_prefix [of r] assms by (cases "lazy_scan r"; cases r) auto

lemma takeWhile_run:
  assumes "\<forall>c\<in>set w. P c" "r = [] \<or> \<not> P (hd r)"
  shows "takeWhile P (w @ r) = w" "dropWhile P (w @ r) = r"
  using assms by (cases r; simp add: takeWhile_append dropWhile_append)+


lemma not_space_T: "\<not> is_space (CHR ''T'')" by (simp add: is_space_def)
lemma not_digit_colon: "\<not> is_digit (CHR '':'')" by (simp add: is_digit_def)

lemma task_backtrack_text:
  assumes ws2: "ws2 \<noteq> []" "list_all is_space ws2"
    and t: "t \<noteq> []" "\<not> is_space (hd t)" "nl \<notin> set t" "CHR ''#'' \<notin> set t"
  shows "task_backtrack (length (takeWhile is_space (ws2 @ t @ rest))) (ws2 @ t @ rest)
         = Some (t @ lazy_scan rest, drop (length (lazy_scan rest)) rest)"
proof -
  from t obtain c t' where tc: "t = c # t'" by (cases t) auto
  have tw: "takeWhile is_space (ws2 @ t @ rest) = ws2"
    using ws2 t tc by (intro takeWhile_run) (auto simp: list_all_iff)
  from ws2 obtain j where j: "length ws2 = Suc j" by (cases ws2) auto
  have d: "drop (Suc j) (ws2 @ t @ rest) = c # (t' @ rest)" using j tc by simp
  have ls: "lazy_scan (t' @ rest) = t' @ lazy_scan rest"
    using t tc by (intro lazy_scan_append) auto
  have "task_backtrack (Suc j) (ws2 @ t @ rest)
          = Some (c # lazy_scan (t' @ rest), drop (length (lazy_scan (t' @ rest))) (t' @ rest))"
    using d by simp
  also have "\<dots> = Some (t @ lazy_scan rest, drop (length (lazy_scan rest)) rest)"
    by (simp add: ls tc)
  finally show ?thesis by (simp only: tw j)
qed

lemma match_task_heading:
  assumes ws1: "ws1 \<noteq> []" "list_all is_space ws1"
    and ds: "ds \<noteq> []" "list_all is_digit ds"
    and ws2: "ws2 \<noteq> []" "list_all is_space ws2"
    and t: "t \<noteq> []" "\<not> is_space (hd t)" "nl \<notin> set t" "CHR ''#'' \<notin> set t"
  shows "match_task (''####'' @ ws1 @ ''TASK-'' @ ds @ '':'' @ ws2 @ t @ rest)
         = Some (ds, t @ lazy_scan rest, drop (length (lazy_scan rest)) rest)"
proof -
  let ?Z = "ws2 @ t @ rest"
  let ?Y = "ds @ '':'' @ ?Z"
  let ?X = "ws1 @ ''TASK-'' @ ?Y"
  have p: "prefix ''####'' (''####'' @ ?X)" by simp
  have d4: "drop 4 (''####'' @ ?X) = ?X" by simp
  have x: "takeWhile is_space ?X = ws1" "dropWhile is_space ?X = ''TASK-'' @ ?Y"
    using ws1 not_space_T by (simp_all add: list_all_iff takeWhile_append dropWhile_append)
  have p2: "prefix ''TASK-'' (''TASK-'' @ ?Y)" by simp
  have d5: "drop 5 (''TASK-'' @ ?Y) = ?Y" by simp
  have y: "takeWhile is_digit ?Y = ds" "dropWhile is_digit ?Y = CHR '':'' # ?Z"
    using ds not_digit_colon by (simp_all add: list_all_iff takeWhile_append dropWhile_append)
  note tb = task_backtrack_text [OF ws2 t, of rest]
  show ?thesis
    unfolding match_task_def
    by (simp only: p d4 x p2 d5 y tb Let_def if_True if_False ws1 ds list.case option.case prod.case simp_thms)
qed

lemma finditer_skip:
  assumes "CHR ''#'' \<notin> set pre"
  shows "finditer_tasks (pre @ s) = finditer_tasks s"
  using assms
proof (induction pre)
  case Nil
  then show ?case by simp
next
  case (Cons c cs)
  then have "match_task ((c # cs) @ s) = None" by (auto simp: match_task_def prefix_def)
  with Cons show ?case by (subst finditer_tasks.simps) simp
qed


text \<open>A heading of the task pattern at the start of a document, or below text without
  \<open>#\<close>, gives the first task of the plan, with the text of the heading as its title.\<close>

lemma first_heading_title:
  assumes pre: "CHR ''#'' \<notin> set pre"
    and ws1: "ws1 \<noteq> []" "list_all is_space ws1"
    and ds: "ds \<noteq> []" "list_all is_digit ds"
    and ws2: "ws2 \<noteq> []" "list_all is_space ws2"
    and t: "t \<noteq> []" "\<not> is_space (hd t)" "nl \<notin> set t" "CHR ''#'' \<notin> set t"
    and rest: "rest = [] \<or> hd rest = nl"
  shows "\<exists>t0 ts. parse_refactor_plan
                   (Plan (pre @ ''####'' @ ws1 @ ''TASK-'' @ ds @ '':'' @ ws2 @ t @ rest))
                 = Inr (t0 # ts)
           \<and> task_id t0 = ''TASK-'' @ ds \<and> title t0 = strip t
           \<and> map title (t0 # ts)
               = map (\<lambda>(ds, b). strip (takeWhile (\<lambda>c. c \<noteq> nl) (strip b)))
                   (finditer_tasks
                      (pre @ ''####'' @ ws1 @ ''TASK-'' @ ds @ '':'' @ ws2 @ t @ rest))"
proof -
  let ?s = "''####'' @ ws1 @ ''TASK-'' @ ds @ '':'' @ ws2 @ t @ rest"
  let ?b = "t @ lazy_scan rest"
  let ?r = "drop (length (lazy_scan rest)) rest"
  have "finditer_tasks (pre @ ?s) = finditer_tasks ?s" using pre by (rule finditer_skip)
  also have "\<dots> = (ds, ?b) # finditer_tasks ?r"
    by (subst finditer_tasks.simps) (simp only: match_task_heading [OF ws1 ds ws2 t] option.case prod.case)
  finally have f: "finditer_tasks (pre @ ?s) = (ds, ?b) # finditer_tasks ?r" .
  from parse_task_total obtain t0 where t0: "parse_task ds ?b = Inr t0" by blast
  from parse_matches_total obtain ts where ts: "parse_matches (finditer_tasks ?r) = Inr ts"
    by blast
  have pm: "parse_matches (finditer_tasks (pre @ ?s)) = Inr (t0 # ts)"
    by (simp add: f t0 ts del: append.simps append_assoc)
  then have "parse_refactor_plan (Plan (pre @ ?s)) = Inr (t0 # ts)"
    by (simp only: parse_refactor_plan_def plan_file.case)
  moreover note parse_matches_titles [OF pm]
  moreover have "task_id t0 = ''TASK-'' @ ds" using t0 by (rule parse_task_id)
  moreover have "title t0 = strip t"
    using parse_task_title [OF t0] title_of_block [OF t(1,2,3) lazy_scan_shape [OF rest]]
    by simp
  ultimately show ?thesis by blast
qed













text \<open>
  C6 (as the code has it). \<open>main\<close> also returns 1 when \<open>GitHubAPI()\<close> raises: the plan is
  there, it holds a task, no call of \<open>create_issue\<close> was made and none failed.
\<close>

theorem main_init_failure:
  "main (Plan ''#### TASK-1: A'') (Inl ''no token'' :: string + (unit create_issue \<times> unit))
     = Inr \<lparr> exit_code = 1, outcome = no_batch \<rparr>
   \<and> Plan ''#### TASK-1: A'' \<noteq> Missing
   \<and> parse_refactor_plan (Plan ''#### TASK-1: A'') \<noteq> Inr []
   \<and> failed_issues no_batch = [] \<and> calls no_batch = []"
  by code_simp

text \<open>
  C6 (amended). With a plan file that is absent or readable, \<open>main\<close> returns an exit code,
  0 or 1, and the code is not 0 exactly when the plan file is absent, the parser finds no
  task, \<open>GitHubAPI()\<close> raises, or a call of \<open>create_issue\<close> raised. When the loop runs,
  \<open>create_issue\<close> is called once for every task, in the order of the plan, whatever the
  earlier calls returned; the tasks whose call returned are recorded with the number of
  their issue, and the tasks whose call raised are recorded as failed.
\<close>

theorem main_batch:
  assumes "plan \<noteq> Unreadable"
  shows "\<exists>r. main plan github = Inr r
    \<and> (exit_code r = 0 \<or> exit_code r = 1)
    \<and> (exit_code r \<noteq> 0 \<longleftrightarrow>
         plan = Missing \<or> parse_refactor_plan plan = Inr [] \<or> (\<exists>e. github = Inl e)
         \<or> failed_issues (outcome r) \<noteq> [])
    \<and> (\<forall>tasks api st.
         parse_refactor_plan plan = Inr tasks \<and> tasks \<noteq> [] \<and> github = Inr (api, st) \<longrightarrow>
         calls (outcome r) = map issue_of tasks
         \<and> created_issues (outcome r) = created_of tasks (responses api st tasks)
         \<and> failed_issues (outcome r) = failed_of tasks (responses api st tasks))"
proof (cases plan)
  case Missing
  then show ?thesis by (simp add: main_def no_batch_def parse_refactor_plan_def)
next
  case Unreadable
  with assms show ?thesis by simp
next
  case (Plan content)
  from parse_matches_total obtain tasks where
    p: "parse_matches (finditer_tasks content) = Inr tasks" by blast
  show ?thesis
  proof (cases "tasks = []")
    case True
    with Plan p show ?thesis by (simp add: main_def no_batch_def parse_refactor_plan_def)
  next
    case False
    show ?thesis
    proof (cases github)
      case (Inl e)
      with Plan p False show ?thesis
        by (simp add: main_def no_batch_def parse_refactor_plan_def)
    next
      case (Inr c)
      obtain api st where c: "c = (api, st)" by (cases c)
      with Inr Plan p False show ?thesis
        by (simp add: main_def Let_def publish_eq no_batch_def parse_refactor_plan_def)
    qed
  qed
qed

lemma plan3_parsed:
  "parse_refactor_plan (Plan plan3) =
     Inr [plain_task ''TASK-1'' ''A'', plain_task ''TASK-2'' ''B'', plain_task ''TASK-3'' ''C'']"
  by code_simp

theorem main_batch_witness:
  "Plan plan3 \<noteq> Unreadable \<and>
   (\<exists>r. main (Plan plan3) (Inr (flaky, 0)) = Inr r
     \<and> exit_code r = 1
     \<and> created_issues (outcome r) = [(''TASK-1'', 100), (''TASK-3'', 102)]
     \<and> failed_issues (outcome r) = [''TASK-2'']
     \<and> calls (outcome r) =
         map issue_of
           [plain_task ''TASK-1'' ''A'', plain_task ''TASK-2'' ''B'', plain_task ''TASK-3'' ''C''])"
proof -
  let ?ts = "[plain_task ''TASK-1'' ''A'', plain_task ''TASK-2'' ''B'', plain_task ''TASK-3'' ''C'']"
  let ?g = "Inr (flaky, 0) :: string + (nat create_issue \<times> nat)"
  have h: "Plan plan3 \<noteq> Unreadable" by simp
  have rs: "responses flaky 0 ?ts = [Inr 100, Inl ''HTTP 500'', Inr 102]"
    by (simp add: flaky_def)
  from main_batch [OF h, of ?g]
  obtain r where r: "main (Plan plan3) ?g = Inr r"
    and e: "exit_code r = 0 \<or> exit_code r = 1"
    and x: "exit_code r \<noteq> 0 \<longleftrightarrow>
          Plan plan3 = Missing \<or> parse_refactor_plan (Plan plan3) = Inr []
          \<or> (\<exists>e. ?g = Inl e) \<or> failed_issues (outcome r) \<noteq> []"
    and b: "\<forall>tasks api st.
         parse_refactor_plan (Plan plan3) = Inr tasks \<and> tasks \<noteq> [] \<and> ?g = Inr (api, st) \<longrightarrow>
         calls (outcome r) = map issue_of tasks
         \<and> created_issues (outcome r) = created_of tasks (responses api st tasks)
         \<and> failed_issues (outcome r) = failed_of tasks (responses api st tasks)"
    by blast
  from b plan3_parsed have c: "calls (outcome r) = map issue_of ?ts"
    and cr: "created_issues (outcome r) = created_of ?ts (responses flaky 0 ?ts)"
    and f: "failed_issues (outcome r) = failed_of ?ts (responses flaky 0 ?ts)"
    by auto
  from cr rs have cr': "created_issues (outcome r) = [(''TASK-1'', 100), (''TASK-3'', 102)]"
    by (simp add: created_of_def plain_task_def)
  from f rs have f': "failed_issues (outcome r) = [''TASK-2'']"
    by (simp add: failed_of_def plain_task_def)
  from x f' e have "exit_code r = 1" by auto
  with h r c cr' f' show ?thesis by blast
qed

section \<open>Properties of the assessment\<close>

subsection \<open>The complexity heuristic\<close>

text \<open>Every text that \<open>finditer_defs\<close> hands on starts with the matched \<open>def\<close>, so the text
  before its first \<open>def\<close> is empty, and no function is ever reported.\<close>

lemma finditer_defs_prefix: "(n, s') \<in> set (finditer_defs s) \<Longrightarrow> prefix ''def'' s'"
proof (induction s rule: finditer_defs.induct)
  case (1 s)
  show ?case
  proof (cases "match_def s")
    case None
    with "1.prems" obtain c cs where s: "s = c # cs" and m: "(n, s') \<in> set (finditer_defs cs)"
      by (subst (asm) finditer_defs.simps) (auto split: list.splits)
    from "1.IH"(1) [OF None s m] show ?thesis .
  next
    case (Some a)
    obtain name rest where a: "a = (name, rest)" by (cases a)
    from Some a have p: "prefix ''def'' s" by (auto simp: match_def_def split: if_splits)
    from "1.prems" Some a have "(n, s') = (name, s) \<or> (n, s') \<in> set (finditer_defs rest)"
      by (subst (asm) finditer_defs.simps) auto
    then show ?thesis
    proof
      assume "(n, s') = (name, s)"
      with p show ?thesis by simp
    next
      assume "(n, s') \<in> set (finditer_defs rest)"
      with "1.IH"(2) [OF Some a [symmetric]] show ?thesis by simp
    qed
  qed
qed

lemma body_window_at_match: "prefix ''def'' s \<Longrightarrow> body_window s = []"
  by (cases s) (auto simp: body_window_def)

lemma complexity_Nil: "complexity [] = 0"
  by (simp add: complexity_def scored_keywords_def str_count.simps)

lemma detect_complexity_empty: "detect_complexity t = []"
proof (cases t)
  case None
  then show ?thesis by (simp add: detect_complexity_def)
next
  case (Some content)
  have "\<forall>x\<in>set (finditer_defs content).
          (case x of (func_name, from_start) \<Rightarrow>
             if complexity (body_window from_start) > 10
             then [(func_name, complexity (body_window from_start))] else []) = []"
    by (auto simp: body_window_at_match complexity_Nil dest!: finditer_defs_prefix)
  with Some show ?thesis by (simp add: detect_complexity_def)
qed

text \<open>
  C1 (the code at a failing input). \<open>branchy\<close> holds one function \<open>f\<close>. The text from the
  start of its match to the next \<open>def\<close>, here the end of the file, holds eleven
  occurrences of the scored keywords, more than 10; the window the code scores is empty
  and \<open>f\<close> is not reported.
\<close>

theorem detect_complexity_misses_branchy:
  "map fst (finditer_defs branchy) = [''f'']
   \<and> complexity (spec_body_window branchy) = 11
   \<and> body_window branchy = []
   \<and> detect_complexity (Some branchy) = []"
  by code_simp

text \<open>The count of a text that is not empty never falls when text is dropped in front,
  and falls by at most one when at most as many characters as the text has are dropped;
  the count of a concatenation is at least the sum of the counts.\<close>

lemma str_count_short: "k \<noteq> [] \<Longrightarrow> length s < length k \<Longrightarrow> str_count k s = 0"
  by (subst str_count.simps) simp

lemma str_count_prefix:
  "k \<noteq> [] \<Longrightarrow> prefix k s \<Longrightarrow> str_count k s = Suc (str_count k (drop (length k) s))"
  by (subst str_count.simps) (auto simp: prefix_def)

lemma str_count_skip:
  "k \<noteq> [] \<Longrightarrow> length k \<le> length s \<Longrightarrow> \<not> prefix k s \<Longrightarrow> str_count k s = str_count k (tl s)"
  by (subst str_count.simps) simp

lemma str_count_bounds:
  assumes k: "k \<noteq> []"
  shows "(\<forall>j. str_count k (drop j s) \<le> str_count k s)
       \<and> (\<forall>m\<le>length k. str_count k s \<le> Suc (str_count k (drop m s)))"
proof (induction "length s" arbitrary: s rule: less_induct)
  case less
  let ?n = "length k"
  show ?case
  proof (cases "length s < ?n")
    case True
    then have "str_count k s = 0" using k by (simp add: str_count_short)
    moreover have "str_count k (drop j s) = 0" for j
      using True k by (simp add: str_count_short)
    ultimately show ?thesis by simp
  next
    case False
    with k have sne: "s \<noteq> []" by auto
    then have tl_less: "length (tl s) < length s" by (cases s) auto
    have dropj: "drop (Suc j) s = drop j (tl s)" for j by (simp add: drop_Suc)
    note IHtl = less [OF tl_less]
    show ?thesis
    proof (cases "prefix k s")
      case True
      then have c: "str_count k s = Suc (str_count k (drop ?n s))"
        using k by (rule str_count_prefix [rotated])
      from k obtain n' where n': "?n = Suc n'" by (cases k) auto
      have tl_bound: "str_count k (tl s) \<le> str_count k s"
      proof -
        from IHtl have "str_count k (tl s) \<le> Suc (str_count k (drop n' (tl s)))"
          using n' by simp
        then show ?thesis using c n' dropj [of n'] by simp
      qed
      have p1: "str_count k (drop j s) \<le> str_count k s" for j
      proof (cases j)
        case 0
        then show ?thesis by simp
      next
        case (Suc j')
        from IHtl have "str_count k (drop j' (tl s)) \<le> str_count k (tl s)" by blast
        with tl_bound Suc dropj [of j'] show ?thesis by simp
      qed
      have p2: "str_count k s \<le> Suc (str_count k (drop m s))" if m: "m \<le> ?n" for m
      proof (cases m)
        case 0
        then show ?thesis by simp
      next
        case (Suc m')
        with sne have "length (drop m s) < length s" by (cases s) auto
        from less [OF this] have "str_count k (drop (?n - m) (drop m s)) \<le> str_count k (drop m s)"
          by blast
        moreover have "drop (?n - m) (drop m s) = drop ?n s" using m by simp
        ultimately show ?thesis using c by simp
      qed
      from p1 p2 show ?thesis by blast
    next
      case np: False
      from False have "?n \<le> length s" by simp
      then have c: "str_count k s = str_count k (tl s)" using k np by (simp add: str_count_skip)
      have p1: "str_count k (drop j s) \<le> str_count k s" for j
      proof (cases j)
        case 0
        then show ?thesis by simp
      next
        case (Suc j')
        from IHtl have "str_count k (drop j' (tl s)) \<le> str_count k (tl s)" by blast
        with c Suc dropj [of j'] show ?thesis by simp
      qed
      have p2: "str_count k s \<le> Suc (str_count k (drop m s))" if m: "m \<le> ?n" for m
      proof (cases m)
        case 0
        then show ?thesis by simp
      next
        case (Suc m')
        with m have "m' \<le> ?n" by simp
        with IHtl have "str_count k (tl s) \<le> Suc (str_count k (drop m' (tl s)))" by blast
        with c Suc dropj [of m'] show ?thesis by simp
      qed
      from p1 p2 show ?thesis by blast
    qed
  qed
qed

lemma str_count_drop_le: "k \<noteq> [] \<Longrightarrow> str_count k (drop j s) \<le> str_count k s"
  using str_count_bounds by blast

lemma str_count_append_ge:
  assumes k: "k \<noteq> []"
  shows "str_count k a + str_count k b \<le> str_count k (a @ b)"
proof (induction "length a" arbitrary: a rule: less_induct)
  case less
  let ?n = "length k"
  show ?case
  proof (cases "length a < ?n")
    case True
    then have "str_count k a = 0" using k by (simp add: str_count_short)
    moreover have "str_count k (drop (length a) (a @ b)) \<le> str_count k (a @ b)"
      using k by (rule str_count_drop_le)
    ultimately show ?thesis by simp
  next
    case False
    with k have ane: "a \<noteq> []" by auto
    show ?thesis
    proof (cases "prefix k a")
      case True
      then have pa: "prefix k (a @ b)" by (simp add: prefix_prefix)
      from k ane have "length (drop ?n a) < length a" by (cases k; cases a) auto
      from less [OF this] have "str_count k (drop ?n a) + str_count k b \<le> str_count k (drop ?n a @ b)" .
      moreover have "drop ?n (a @ b) = drop ?n a @ b" using False by simp
      ultimately show ?thesis
        using str_count_prefix [OF k True] str_count_prefix [OF k pa] by simp
    next
      case np: False
      from False have le: "?n \<le> length a" by simp
      have npa: "\<not> prefix k (a @ b)"
      proof
        assume "prefix k (a @ b)"
        with le have "prefix k a" by (metis prefix_length_prefix prefixI)
        with np show False by simp
      qed
      from ane have "length (tl a) < length a" by (cases a) auto
      from less [OF this] have "str_count k (tl a) + str_count k b \<le> str_count k (tl a @ b)" .
      moreover have "tl (a @ b) = tl a @ b" using ane by simp
      ultimately show ?thesis
        using str_count_skip [OF k le np] str_count_skip [OF k _ npa] le by simp
    qed
  qed
qed

lemma str_count_self: "k \<noteq> [] \<Longrightarrow> str_count k k = 1"
  by (simp add: str_count_prefix str_count_short)

lemma complexity_append_ge: "complexity a + complexity b \<le> complexity (a @ b)"
proof -
  have "\<forall>k\<in>set scored_keywords. str_count k a + str_count k b \<le> str_count k (a @ b)"
    by (auto simp: scored_keywords_def intro!: str_count_append_ge)
  then have "sum_list (map (\<lambda>k. str_count k a + str_count k b) scored_keywords)
             \<le> sum_list (map (\<lambda>k. str_count k (a @ b)) scored_keywords)"
    by (intro sum_list_mono) auto
  then show ?thesis by (simp add: complexity_def sum_list_addf)
qed

lemma complexity_keyword: "k \<in> set scored_keywords \<Longrightarrow> 1 \<le> complexity k"
proof -
  assume a: "k \<in> set scored_keywords"
  then have "k \<noteq> []" by (auto simp: scored_keywords_def)
  then have "str_count k k = 1" by (rule str_count_self)
  moreover have "str_count k k \<le> sum_list (map (\<lambda>x. str_count x k) scored_keywords)"
    using a by (intro member_le_sum_list) auto
  ultimately show ?thesis by (simp add: complexity_def)
qed

text \<open>
  C7 (as the code has it). The scored keywords contain one another, and an inserted
  keyword can break an occurrence: \<open>for\<close> put into the empty text raises the sum by two,
  for \<open>for\<close> and for \<open>or\<close>; \<open>if\<close> put into the middle of \<open>if\<close> leaves the sum at one.
\<close>

theorem inserted_keyword_not_plus_one:
  "''for'' \<in> set scored_keywords
   \<and> complexity ([] @ ''for'' @ []) \<noteq> complexity ([] @ []) + 1
   \<and> ''if'' \<in> set scored_keywords
   \<and> complexity (''i'' @ ''if'' @ ''f'') \<noteq> complexity (''i'' @ ''f'') + 1"
  by code_simp

text \<open>
  C7 (amended). For a scored keyword \<open>k\<close> put between two texts \<open>a\<close> and \<open>b\<close>, the sum of
  the counts over \<open>a\<close>, \<open>k\<close>, \<open>b\<close> is at least the sum over \<open>a\<close> plus the sum over \<open>b\<close>
  plus one.
\<close>

theorem inserted_keyword_raises_complexity:
  assumes "k \<in> set scored_keywords"
  shows "complexity a + complexity b + 1 \<le> complexity (a @ k @ b)"
proof -
  have "complexity a + (complexity k + complexity b) \<le> complexity (a @ k @ b)"
    using complexity_append_ge [of a "k @ b"] complexity_append_ge [of k b] by simp
  with complexity_keyword [OF assms] show ?thesis by simp
qed

theorem inserted_keyword_raises_complexity_witness:
  "''while'' \<in> set scored_keywords
   \<and> complexity ''x = 1 '' + complexity '' y: pass'' + 1 \<le> complexity (''x = 1 '' @ ''while'' @ '' y: pass'')"
proof -
  have h: "''while'' \<in> set scored_keywords" by code_simp
  from inserted_keyword_raises_complexity [OF h] h show ?thesis by blast
qed


subsection \<open>The analysis\<close>

lemma foldl_py_step:
  "foldl (py_step d) r fs =
     r\<lparr> total_lines := total_lines r + sum_list (map (\<lambda>e. count_lines (file_text e)) fs),
        large_files := large_files r @ concat (map large_of fs),
        complex_functions := complex_functions r @ concat (map (complex_of d) fs),
        todos := todos r @ concat (map todos_of fs) \<rparr>"
  by (induction fs arbitrary: r)
    (simp_all add: py_step_def Let_def large_of_def complex_of_def todos_of_def)

lemma foldl_js_step:
  "foldl js_step r fs =
     r\<lparr> total_lines := total_lines r + sum_list (map (\<lambda>e. count_lines (file_text e)) fs),
        large_files := large_files r @ concat (map large_of fs),
        todos := todos r @ concat (map todos_of fs) \<rparr>"
  by (induction fs arbitrary: r)
    (simp_all add: js_step_def Let_def large_of_def todos_of_def)

lemma analyze_with_fields:
  "complex_functions (analyze_with d root) = concat (map (complex_of d) (find_python_files root))"
  "large_files (analyze_with d root)
     = concat (map large_of (find_python_files root @ find_js_ts_files root))"
  "todos (analyze_with d root)
     = concat (map todos_of (find_python_files root @ find_js_ts_files root))"
  "total_lines (analyze_with d root)
     = sum_list (map (\<lambda>e. count_lines (file_text e))
                     (find_python_files root @ find_js_ts_files root))"
  "total_files (analyze_with d root)
     = length (find_python_files root) + length (find_js_ts_files root)"
  by (simp_all add: analyze_with_def Let_def foldl_py_step foldl_js_step initial_results_def)

lemma find_python_files_py:
  "e \<in> set (find_python_files root) \<Longrightarrow> e \<in> set (entries root) \<and> suffix ''.py'' (path_name e)"
  by (auto simp: find_python_files_def rglob_def glob_def)

text \<open>
  C10. Whatever the detector reports, every entry of \<open>complex_functions\<close> carries the
  relative path of one of the Python files found, a path below the root whose name ends
  in \<open>.py\<close>: the entries are those of the Python files, in their order. The files found
  by \<open>find_js_ts_files\<close> add to the lines, to the large files and to the TODO comments
  only. \<open>analyze_codebase\<close> is the analysis with \<open>detect_complexity\<close> as the detector.
\<close>

theorem complex_functions_of_python_files:
  "(\<forall>x\<in>set (complex_functions (analyze_with detect root)).
      \<exists>e\<in>set (find_python_files root).
        fst x = rel_path e \<and> e \<in> set (entries root) \<and> suffix ''.py'' (path_name e))
   \<and> complex_functions (analyze_with detect root)
       = concat (map (complex_of detect) (find_python_files root))
   \<and> large_files (analyze_with detect root)
       = concat (map large_of (find_python_files root @ find_js_ts_files root))
   \<and> todos (analyze_with detect root)
       = concat (map todos_of (find_python_files root @ find_js_ts_files root))
   \<and> total_lines (analyze_with detect root)
       = sum_list (map (\<lambda>e. count_lines (file_text e))
                       (find_python_files root @ find_js_ts_files root))
   \<and> analyze_codebase root = analyze_with detect_complexity root"
proof -
  have "\<exists>e\<in>set (find_python_files root).
          fst x = rel_path e \<and> e \<in> set (entries root) \<and> suffix ''.py'' (path_name e)"
    if "x \<in> set (complex_functions (analyze_with detect root))" for x
  proof -
    from that obtain e where e: "e \<in> set (find_python_files root)"
      and x: "x \<in> set (complex_of detect e)"
      by (auto simp: analyze_with_fields)
    from x have "fst x = rel_path e" by (auto simp: complex_of_def)
    with e find_python_files_py [OF e] show ?thesis by blast
  qed
  then show ?thesis by (simp add: analyze_with_fields analyze_codebase_def)
qed

lemma small_root_complex:
  "complex_functions (analyze_with loud_detector small_root) = [(''src/a.py'', ''f'', 11)]"
  by code_simp

lemma small_root_todos:
  "todos (analyze_with loud_detector small_root)
     = [''a.py:2: # TODO: fix me'', ''b.js:1: // FIXME later'']"
  by code_simp

theorem complex_functions_of_python_files_witness:
  "complex_functions (analyze_with loud_detector small_root) = [(''src/a.py'', ''f'', 11)]
   \<and> (\<exists>e\<in>set (find_python_files small_root).
         ''src/a.py'' = rel_path e \<and> e \<in> set (entries small_root) \<and> suffix ''.py'' (path_name e))
   \<and> todos (analyze_with loud_detector small_root)
       = [''a.py:2: # TODO: fix me'', ''b.js:1: // FIXME later'']"
proof -
  have "(''src/a.py'', ''f'', 11) \<in> set (complex_functions (analyze_with loud_detector small_root))"
    by (simp add: small_root_complex)
  with complex_functions_of_python_files [of loud_detector small_root]
  have "\<exists>e\<in>set (find_python_files small_root).
         fst (''src/a.py'', ''f'', 11::nat) = rel_path e \<and> e \<in> set (entries small_root)
         \<and> suffix ''.py'' (path_name e)"
    by blast
  then show ?thesis using small_root_complex small_root_todos by simp
qed

subsection \<open>The order of the large files\<close>








subsection \<open>The report\<close>















end
